theory Spec2Isabelle
  imports Main "HOL-Library.Log_Nat"
begin

section \<open>Python values used by \<^verbatim>\<open>splitwise_mcp.py\<close>\<close>

subsection \<open>Floats\<close>

text \<open>
  \<^verbatim>\<open>amount: float\<close> and \<^verbatim>\<open>owed_shares: Optional[List[float]]\<close> are IEEE binary64
  values. A finite float is represented by the rational number it denotes (\<open>Finite 0\<close> is
  positive zero); negative zero, the infinities and the not-a-number have constructors of
  their own, since \<^verbatim>\<open>f"{x:.2f}"\<close> prints them differently.
\<close>

datatype pyfloat = Finite rat | NegZero | PosInf | NegInf | NaN

definition pow2 :: "int \<Rightarrow> rat" where
  "pow2 e = (if 0 \<le> e then of_int (2 ^ nat e) else 1 / of_int (2 ^ nat (- e)))"

text \<open>\<open>ilog2 a\<close> is the exponent \<open>e\<close> with \<open>2 ^ e \<le> a < 2 ^ (e + 1)\<close>, for \<open>a > 0\<close>.\<close>

definition ilog2 :: "rat \<Rightarrow> int" where
  "ilog2 a = (if 1 \<le> a then int (floorlog 2 (nat \<lfloor>a\<rfloor>)) - 1
              else - int (floorlog 2 (nat (\<lceil>1 / a\<rceil> - 1))))"

text \<open>Rounding to the nearest integer, a tie going to the even neighbour.\<close>

definition round_half_even :: "rat \<Rightarrow> int" where
  "round_half_even x =
     (let f = \<lfloor>x\<rfloor>; r = x - of_int f
      in if r < 1 / 2 then f else if 1 / 2 < r then f + 1
         else if even f then f else f + 1)"

text \<open>
  The binary64 value nearest to a rational (ties to even): 53 significant bits, least
  exponent \<open>- 1074\<close> for the last bit, overflow to an infinity from \<open>2 ^ 1024\<close> on, and
  a signed zero on underflow.
\<close>

definition to_binary64 :: "rat \<Rightarrow> pyfloat" where
  "to_binary64 q =
     (if q = 0 then Finite 0
      else let a = \<bar>q\<bar>;
               e = max (ilog2 a) (- 1022) - 52;
               m = round_half_even (a / pow2 e);
               r = of_int m * pow2 e
           in if pow2 1024 \<le> r then (if 0 < q then PosInf else NegInf)
              else if r = 0 then (if 0 < q then Finite 0 else NegZero)
              else Finite (if 0 < q then r else - r))"

datatype error =
    HTTPException int string
  | ZeroDivisionError
  | TypeError
  | JSONDecodeError
  | TransportError

text \<open>
  \<^verbatim>\<open>x / n\<close> for a float \<open>x\<close> and \<open>n = len(...)\<close>: Python raises \<^verbatim>\<open>ZeroDivisionError\<close>
  for a zero divisor whatever the dividend is, and otherwise returns the correctly rounded
  quotient. (A list length is far below \<open>2 ^ 53\<close>, so its conversion to float is exact.)
\<close>

definition float_div :: "pyfloat \<Rightarrow> nat \<Rightarrow> error + pyfloat" where
  "float_div x n =
     (if n = 0 then Inl ZeroDivisionError
      else case x of
             Finite q \<Rightarrow> Inr (to_binary64 (q / of_nat n))
           | _ \<Rightarrow> Inr x)"

text \<open>
  \<^verbatim>\<open>round(x, 2)\<close>: the float nearest to the decimal with two places that is nearest to
  \<open>x\<close> (ties to even, on the exact value of \<open>x\<close>); the sign of \<open>x\<close> survives a zero result;
  infinities and not-a-number round to themselves. (CPython's overflow check cannot fire
  for two places: a float of magnitude \<open>2 ^ 52\<close> or more is an integer.)
\<close>

definition py_round2 :: "pyfloat \<Rightarrow> pyfloat" where
  "py_round2 x =
     (case x of
        Finite q \<Rightarrow>
          (let d = of_int (round_half_even (q * 100)) / 100
           in if d = 0 then (if q < 0 then NegZero else Finite 0) else to_binary64 d)
      | _ \<Rightarrow> x)"

subsection \<open>Strings\<close>

definition digit_char :: "nat \<Rightarrow> char" where
  "digit_char d = ''0123456789'' ! d"

text \<open>\<^verbatim>\<open>str(n)\<close> for a natural number, as an f-string renders a loop index.\<close>

fun str_nat :: "nat \<Rightarrow> string" where
  "str_nat n = (if n < 10 then [digit_char n]
                else str_nat (n div 10) @ [digit_char (n mod 10)])"

declare str_nat.simps [simp del]

definition str_int :: "int \<Rightarrow> string" where
  "str_int i = (if i < 0 then ''-'' @ str_nat (nat (- i)) else str_nat (nat i))"

text \<open>A number of hundredths printed with two decimal places.\<close>

definition fixed2 :: "nat \<Rightarrow> string" where
  "fixed2 c = str_nat (c div 100) @ ''.'' @ [digit_char (c mod 100 div 10), digit_char (c mod 10)]"

text \<open>
  \<^verbatim>\<open>f"{x:.2f}"\<close>: the exact value of the float rounded to two places (ties to even),
  a minus sign for every negative float, also when the digits are all zero.
\<close>

definition fmt2 :: "pyfloat \<Rightarrow> string" where
  "fmt2 x =
     (case x of
        Finite q \<Rightarrow> (if q < 0 then ''-'' else '''') @ fixed2 (nat (round_half_even (\<bar>q\<bar> * 100)))
      | NegZero \<Rightarrow> ''-0.00''
      | PosInf \<Rightarrow> ''inf''
      | NegInf \<Rightarrow> ''-inf''
      | NaN \<Rightarrow> ''nan'')"

subsection \<open>Dictionaries and JSON\<close>

datatype pyval = VStr string | VInt int | VBool bool | VNone

type_synonym pydict = "string \<rightharpoonup> pyval"

datatype json =
    JNull
  | JBool bool
  | JInt int
  | JFloat pyfloat
  | JStr string
  | JList "json list"
  | JDict "(string \<times> json) list"

section \<open>Pydantic models\<close>

record ExpenseIntent =
  user_id :: int
  amount :: pyfloat
  currency :: string
  description :: string
  participants :: "int list"
  split_type :: string
  owed_shares :: "pyfloat list option"

record FriendIntent =
  user_email :: string
  first_name :: "string option"
  last_name :: "string option"

record GroupIntent =
  name :: string
  group_type :: "string option"
  simplify_by_default :: "bool option"
  users :: "int list option"

record MCPResponse =
  status :: string
  data :: json

section \<open>The downstream call\<close>

text \<open>
  A request as \<^verbatim>\<open>client.request(method, url, json=payload, params=params)\<close> sends it
  (the base URL and the bearer header are the same for every request), and what the code
  reads of an \<^verbatim>\<open>httpx\<close> response: \<^verbatim>\<open>status_code\<close>, \<^verbatim>\<open>text\<close> and \<^verbatim>\<open>json()\<close>,
  which raises when the body is not a JSON document (\<open>None\<close> here).
\<close>

record request =
  http_method :: string
  path :: string
  payload :: "pydict option"
  params :: "pydict option"

record response =
  status_code :: int
  body_text :: string
  json_body :: "json option"

text \<open>
  The downstream service answers a request with a response, or not at all (\<open>None\<close>: the
  transport raises). The requests sent so far are kept in a list, so that "no downstream
  call" is that list unchanged.
\<close>

type_synonym downstream = "request \<Rightarrow> response option"

definition call_splitwise ::
  "downstream \<Rightarrow> string \<Rightarrow> string \<Rightarrow> pydict option \<Rightarrow> pydict option \<Rightarrow> request list
     \<Rightarrow> (error + json) \<times> request list" where
  "call_splitwise ds meth url_path pl ps sent =
     (let req = \<lparr>http_method = meth, path = url_path, payload = pl, params = ps\<rparr>;
          sent' = sent @ [req]
      in case ds req of
           None \<Rightarrow> (Inl TransportError, sent')
         | Some resp \<Rightarrow>
             if status_code resp \<notin> {200, 201}
             then (Inl (HTTPException (status_code resp) (body_text resp)), sent')
             else (case json_body resp of
                     None \<Rightarrow> (Inl JSONDecodeError, sent')
                   | Some j \<Rightarrow> (Inr j, sent')))"

text \<open>\<^verbatim>\<open>return {"status": "success", "data": api_resp}\<close>, after an awaited call that may have raised.\<close>

definition success ::
  "(error + json) \<times> request list \<Rightarrow> (error + MCPResponse) \<times> request list" where
  "success r =
     (case r of
        (Inl e, sent') \<Rightarrow> (Inl e, sent')
      | (Inr api_resp, sent') \<Rightarrow> (Inr \<lparr>status = ''success'', data = api_resp\<rparr>, sent'))"

section \<open>Expense endpoints\<close>

text \<open>The key \<^verbatim>\<open>f"users__{idx}__<field>"\<close>.\<close>

definition users_key :: "nat \<Rightarrow> string \<Rightarrow> string" where
  "users_key idx field = ''users__'' @ str_nat idx @ ''__'' @ field"

text \<open>The body of the loop of the \<^verbatim>\<open>equal\<close> branch, at one \<^verbatim>\<open>(idx, uid)\<close>.\<close>

definition equal_step :: "ExpenseIntent \<Rightarrow> pyfloat \<Rightarrow> nat \<times> int \<Rightarrow> pydict \<Rightarrow> pydict" where
  "equal_step intent share = (\<lambda>(idx, uid) body.
     let paid = (if uid = user_id intent then fmt2 (amount intent) else ''0.00'');
         owed = (if uid \<noteq> user_id intent then fmt2 share else ''0.00'')
     in body(users_key idx ''user_id'' \<mapsto> VInt uid,
             users_key idx ''paid_share'' \<mapsto> VStr paid,
             users_key idx ''owed_share'' \<mapsto> VStr owed))"

text \<open>The body of the loop of the \<^verbatim>\<open>shares\<close>/\<^verbatim>\<open>unequal\<close> branch, at one \<^verbatim>\<open>(idx, (uid, owed_share))\<close>.\<close>

definition shares_step :: "ExpenseIntent \<Rightarrow> nat \<times> int \<times> pyfloat \<Rightarrow> pydict \<Rightarrow> pydict" where
  "shares_step intent = (\<lambda>(idx, uid, owed_share) body.
     let paid = (if uid = user_id intent then fmt2 (amount intent) else ''0.00'');
         owed = fmt2 owed_share
     in body(users_key idx ''user_id'' \<mapsto> VInt uid,
             users_key idx ''paid_share'' \<mapsto> VStr paid,
             users_key idx ''owed_share'' \<mapsto> VStr owed))"

definition owed_shares_detail :: string where
  "owed_shares_detail =
     ''owed_shares must be provided and match participants length for '' @ [CHR 0x27] @
     ''shares'' @ [CHR 0x27] @ '' or '' @ [CHR 0x27] @ ''unequal'' @ [CHR 0x27] @ '' split_type.''"

definition split_type_detail :: string where
  "split_type_detail =
     ''Invalid split_type. Use '' @ [CHR 0x27] @ ''equal'' @ [CHR 0x27] @ '', '' @ [CHR 0x27] @
     ''shares'' @ [CHR 0x27] @ '', or '' @ [CHR 0x27] @ ''unequal'' @ [CHR 0x27] @ ''.''"

text \<open>
  Lines 120 to 142 of \<^verbatim>\<open>mcp_create_expense\<close>: the request body with the allocation in
  it, or the exception raised before the downstream call.
\<close>

definition create_expense_body :: "ExpenseIntent \<Rightarrow> error + pydict" where
  "create_expense_body intent =
     (let body = [''cost'' \<mapsto> VStr (fmt2 (amount intent)),
                  ''description'' \<mapsto> VStr (description intent),
                  ''currency_code'' \<mapsto> VStr (currency intent)]
      in if split_type intent = ''equal'' then
           (case float_div (amount intent) (length (participants intent)) of
              Inl e \<Rightarrow> Inl e
            | Inr q \<Rightarrow>
                Inr (fold (equal_step intent (py_round2 q))
                       (enumerate 0 (participants intent)) body))
         else if split_type intent \<in> {''shares'', ''unequal''} then
           (case owed_shares intent of
              None \<Rightarrow> Inl (HTTPException 400 owed_shares_detail)
            | Some shares \<Rightarrow>
                if shares = [] \<or> length shares \<noteq> length (participants intent)
                then Inl (HTTPException 400 owed_shares_detail)
                else Inr (fold (shares_step intent)
                            (enumerate 0 (zip (participants intent) shares)) body))
         else Inl (HTTPException 400 split_type_detail))"

definition mcp_create_expense ::
  "downstream \<Rightarrow> ExpenseIntent \<Rightarrow> request list \<Rightarrow> (error + MCPResponse) \<times> request list" where
  "mcp_create_expense ds intent sent =
     (case create_expense_body intent of
        Inl e \<Rightarrow> (Inl e, sent)
      | Inr body \<Rightarrow> success (call_splitwise ds ''POST'' ''/create_expense'' (Some body) None sent))"

text \<open>\<^verbatim>\<open>if group_id:\<close> on an \<^verbatim>\<open>Optional[int]\<close>: \<^verbatim>\<open>None\<close> and \<open>0\<close> are false.\<close>

definition truthy_int :: "int option \<Rightarrow> bool" where
  "truthy_int v = (case v of None \<Rightarrow> False | Some i \<Rightarrow> i \<noteq> 0)"

definition truthy_str :: "string option \<Rightarrow> bool" where
  "truthy_str v = (case v of None \<Rightarrow> False | Some s \<Rightarrow> s \<noteq> [])"

definition list_expenses_params :: "int option \<Rightarrow> int option \<Rightarrow> pydict" where
  "list_expenses_params uid gid =
     (if truthy_int gid then [''group_id'' \<mapsto> VInt (the gid)]
      else if truthy_int uid then [''friend_id'' \<mapsto> VInt (the uid)]
      else Map.empty)"

definition mcp_list_expenses ::
  "downstream \<Rightarrow> int option \<Rightarrow> int option \<Rightarrow> request list
     \<Rightarrow> (error + MCPResponse) \<times> request list" where
  "mcp_list_expenses ds uid gid sent =
     success (call_splitwise ds ''GET'' ''/get_expenses'' None
                (Some (list_expenses_params uid gid)) sent)"

definition mcp_get_expense ::
  "downstream \<Rightarrow> int \<Rightarrow> request list \<Rightarrow> (error + MCPResponse) \<times> request list" where
  "mcp_get_expense ds expense_id sent =
     success (call_splitwise ds ''GET'' (''/get_expense/'' @ str_int expense_id) None None sent)"

definition mcp_get_balance ::
  "downstream \<Rightarrow> int \<Rightarrow> request list \<Rightarrow> (error + MCPResponse) \<times> request list" where
  "mcp_get_balance ds uid sent =
     success (call_splitwise ds ''GET'' ''/get_current_user'' None None sent)"

section \<open>Group endpoints\<close>

definition opt_str :: "string option \<Rightarrow> pyval" where
  "opt_str v = (case v of None \<Rightarrow> VNone | Some s \<Rightarrow> VStr s)"

definition opt_bool :: "bool option \<Rightarrow> pyval" where
  "opt_bool v = (case v of None \<Rightarrow> VNone | Some b \<Rightarrow> VBool b)"

definition group_step :: "nat \<times> int \<Rightarrow> pydict \<Rightarrow> pydict" where
  "group_step = (\<lambda>(idx, uid) body. body(users_key idx ''user_id'' \<mapsto> VInt uid))"

text \<open>\<^verbatim>\<open>enumerate(intent.users)\<close> raises \<^verbatim>\<open>TypeError\<close> when \<^verbatim>\<open>users\<close> is \<^verbatim>\<open>None\<close>.\<close>

definition mcp_create_group ::
  "downstream \<Rightarrow> GroupIntent \<Rightarrow> request list \<Rightarrow> (error + MCPResponse) \<times> request list" where
  "mcp_create_group ds intent sent =
     (let body = [''name'' \<mapsto> VStr (name intent),
                  ''group_type'' \<mapsto> opt_str (group_type intent),
                  ''simplify_by_default'' \<mapsto> opt_bool (simplify_by_default intent)]
      in case users intent of
           None \<Rightarrow> (Inl TypeError, sent)
         | Some us \<Rightarrow>
             success (call_splitwise ds ''POST'' ''/create_group''
                        (Some (fold group_step (enumerate 0 us) body)) None sent))"

definition mcp_delete_group ::
  "downstream \<Rightarrow> int \<Rightarrow> request list \<Rightarrow> (error + MCPResponse) \<times> request list" where
  "mcp_delete_group ds group_id sent =
     success (call_splitwise ds ''POST'' (''/delete_group/'' @ str_int group_id) None None sent)"

definition mcp_list_groups ::
  "downstream \<Rightarrow> request list \<Rightarrow> (error + MCPResponse) \<times> request list" where
  "mcp_list_groups ds sent = success (call_splitwise ds ''GET'' ''/get_groups'' None None sent)"

definition mcp_get_group ::
  "downstream \<Rightarrow> int \<Rightarrow> request list \<Rightarrow> (error + MCPResponse) \<times> request list" where
  "mcp_get_group ds group_id sent =
     success (call_splitwise ds ''GET'' (''/get_group/'' @ str_int group_id) None None sent)"

section \<open>Friend endpoints\<close>

definition mcp_list_friends ::
  "downstream \<Rightarrow> request list \<Rightarrow> (error + MCPResponse) \<times> request list" where
  "mcp_list_friends ds sent = success (call_splitwise ds ''GET'' ''/get_friends'' None None sent)"

definition add_friend_body :: "FriendIntent \<Rightarrow> pydict" where
  "add_friend_body intent =
     (let body = [''user_email'' \<mapsto> VStr (user_email intent)];
          body = (if truthy_str (first_name intent)
                  then body(''user_first_name'' \<mapsto> opt_str (first_name intent)) else body);
          body = (if truthy_str (last_name intent)
                  then body(''user_last_name'' \<mapsto> opt_str (last_name intent)) else body)
      in body)"

definition mcp_add_friend ::
  "downstream \<Rightarrow> FriendIntent \<Rightarrow> request list \<Rightarrow> (error + MCPResponse) \<times> request list" where
  "mcp_add_friend ds intent sent =
     success (call_splitwise ds ''POST'' ''/create_friend'' (Some (add_friend_body intent)) None sent)"

definition mcp_delete_friend ::
  "downstream \<Rightarrow> int \<Rightarrow> request list \<Rightarrow> (error + MCPResponse) \<times> request list" where
  "mcp_delete_friend ds friend_id sent =
     success (call_splitwise ds ''POST'' (''/delete_friend/'' @ str_int friend_id) None None sent)"

section \<open>The routes of the application\<close>

text \<open>
  One constructor for each route that \<^verbatim>\<open>app\<close> registers under \<^verbatim>\<open>/mcp/\<close>, with the
  arguments the route takes from the path, the query or the request body. (The health
  check at \<^verbatim>\<open>/\<close> returns a constant and calls nothing.)
\<close>

datatype operation =
    CreateExpense ExpenseIntent
  | ListExpenses "int option" "int option"
  | GetExpense int
  | GetBalance int
  | CreateGroup GroupIntent
  | DeleteGroup int
  | ListGroups
  | GetGroup int
  | ListFriends
  | AddFriend FriendIntent
  | DeleteFriend int

fun route ::
  "downstream \<Rightarrow> operation \<Rightarrow> request list \<Rightarrow> (error + MCPResponse) \<times> request list" where
  "route ds (CreateExpense intent) sent = mcp_create_expense ds intent sent"
| "route ds (ListExpenses uid gid) sent = mcp_list_expenses ds uid gid sent"
| "route ds (GetExpense expense_id) sent = mcp_get_expense ds expense_id sent"
| "route ds (GetBalance uid) sent = mcp_get_balance ds uid sent"
| "route ds (CreateGroup intent) sent = mcp_create_group ds intent sent"
| "route ds (DeleteGroup group_id) sent = mcp_delete_group ds group_id sent"
| "route ds ListGroups sent = mcp_list_groups ds sent"
| "route ds (GetGroup group_id) sent = mcp_get_group ds group_id sent"
| "route ds ListFriends sent = mcp_list_friends ds sent"
| "route ds (AddFriend intent) sent = mcp_add_friend ds intent sent"
| "route ds (DeleteFriend friend_id) sent = mcp_delete_friend ds friend_id sent"

section \<open>Reading an allocation off a request body\<close>

text \<open>
  The entries \<^verbatim>\<open>users__i__user_id\<close>, \<^verbatim>\<open>users__i__paid_share\<close> and
  \<^verbatim>\<open>users__i__owed_share\<close> of a body for \<open>i < n\<close>, in order: the allocation as a
  list of triples.
\<close>

definition allocation :: "pydict \<Rightarrow> nat \<Rightarrow> (pyval option \<times> pyval option \<times> pyval option) list" where
  "allocation body n =
     map (\<lambda>i. (body (users_key i ''user_id''),
                body (users_key i ''paid_share''),
                body (users_key i ''owed_share''))) [0..<n]"

text \<open>The triple of a participant who is recorded with the given paid and owed strings.\<close>

definition triple :: "int \<Rightarrow> string \<Rightarrow> string \<Rightarrow> pyval option \<times> pyval option \<times> pyval option" where
  "triple uid paid owed = (Some (VInt uid), Some (VStr paid), Some (VStr owed))"

text \<open>The keys of the first \<open>n\<close> triples.\<close>

definition entry_keys :: "nat \<Rightarrow> string set" where
  "entry_keys n = (\<lambda>(i, f). users_key i f) ` ({..<n} \<times> {''user_id'', ''paid_share'', ''owed_share''})"

text \<open>
  The allocation that \<^verbatim>\<open>mcp_create_expense\<close> puts into the request body: one triple for
  each participant, or the exception raised instead.
\<close>

definition allocate :: "ExpenseIntent \<Rightarrow> error + (pyval option \<times> pyval option \<times> pyval option) list" where
  "allocate intent =
     (case create_expense_body intent of
        Inl e \<Rightarrow> Inl e
      | Inr body \<Rightarrow> Inr (allocation body (length (participants intent))))"

subsection \<open>Amounts in hundredths\<close>

text \<open>
  Reading a two-decimal string back as a number of hundredths, to add up the amounts of an
  allocation: an optional minus sign, digits, a point and two digits.
\<close>

definition digits_value :: "string \<Rightarrow> nat option" where
  "digits_value s =
     (if s \<noteq> [] \<and> set s \<subseteq> set ''0123456789''
      then Some (foldl (\<lambda>a c. 10 * a + (of_char c - 48)) 0 s) else None)"

definition cents_abs :: "string \<Rightarrow> int option" where
  "cents_abs s =
     (let n = length s
      in if n < 4 \<or> s ! (n - 3) \<noteq> CHR ''.'' then None
         else case (digits_value (take (n - 3) s), digits_value (drop (n - 2) s)) of
                (Some a, Some b) \<Rightarrow> Some (int (a * 100 + b))
              | _ \<Rightarrow> None)"

definition cents_of_string :: "string \<Rightarrow> int option" where
  "cents_of_string s =
     (case s of
        c # r \<Rightarrow> if c = CHR ''-'' then map_option uminus (cents_abs r) else cents_abs s
      | [] \<Rightarrow> None)"

definition cents_entry :: "pyval option \<Rightarrow> int option" where
  "cents_entry v = (case v of Some (VStr s) \<Rightarrow> cents_of_string s | _ \<Rightarrow> None)"

text \<open>The sum of a column of amounts, when every entry is a two-decimal string.\<close>

fun sum_cents :: "int option list \<Rightarrow> int option" where
  "sum_cents [] = Some 0"
| "sum_cents (c # cs) =
     (case (c, sum_cents cs) of (Some a, Some b) \<Rightarrow> Some (a + b) | _ \<Rightarrow> None)"

definition paid_sum :: "(pyval option \<times> pyval option \<times> pyval option) list \<Rightarrow> int option" where
  "paid_sum a = sum_cents (map (\<lambda>(u, p, w). cents_entry p) a)"

definition owed_sum :: "(pyval option \<times> pyval option \<times> pyval option) list \<Rightarrow> int option" where
  "owed_sum a = sum_cents (map (\<lambda>(u, p, w). cents_entry w) a)"

text \<open>A float to currency precision: the hundredths that \<^verbatim>\<open>f"{x:.2f}"\<close> prints.\<close>

definition cents :: "pyfloat \<Rightarrow> int option" where
  "cents x =
     (case x of
        Finite q \<Rightarrow> Some (if q < 0 then - round_half_even (\<bar>q\<bar> * 100)
                         else round_half_even (\<bar>q\<bar> * 100))
      | NegZero \<Rightarrow> Some 0
      | _ \<Rightarrow> None)"

section \<open>The requests of the usage examples\<close>

text \<open>The three example requests in the comment above \<^verbatim>\<open>mcp_create_expense\<close>.\<close>

definition dinner_equal :: ExpenseIntent where
  "dinner_equal =
     \<lparr>user_id = 1, amount = Finite 400, currency = ''INR'', description = ''Dinner'',
      participants = [1, 2], split_type = ''equal'', owed_shares = None\<rparr>"

definition dinner_unequal :: ExpenseIntent where
  "dinner_unequal =
     \<lparr>user_id = 1, amount = Finite 400, currency = ''INR'', description = ''Dinner'',
      participants = [1, 2], split_type = ''unequal'', owed_shares = Some [Finite 135, Finite 265]\<rparr>"

definition snacks_shares :: ExpenseIntent where
  "snacks_shares =
     \<lparr>user_id = 1, amount = Finite 100, currency = ''INR'', description = ''Snacks'',
      participants = [1, 2, 3], split_type = ''shares'',
      owed_shares = Some [Finite 50, Finite 30, Finite 20]\<rparr>"

section \<open>Requests and downstream services used as examples\<close>

text \<open>The request that \<^verbatim>\<open>mcp_get_balance\<close> sends: the lookup of the authenticated user.\<close>

definition current_user_request :: request where
  "current_user_request =
     \<lparr>http_method = ''GET'', path = ''/get_current_user'', payload = None, params = None\<rparr>"

text \<open>A downstream service that gives every request the same response.\<close>

definition answers :: "int \<Rightarrow> string \<Rightarrow> json option \<Rightarrow> downstream" where
  "answers code txt j = (\<lambda>r. Some \<lparr>status_code = code, body_text = txt, json_body = j\<rparr>)"

definition alice :: json where
  "alice = JDict [(''user'', JDict [(''id'', JInt 1), (''first_name'', JStr ''Alice'')])]"

text \<open>The request that \<^verbatim>\<open>mcp_list_expenses\<close> sends with the given query parameters.\<close>

definition expenses_request :: "pydict \<Rightarrow> request" where
  "expenses_request ps =
     \<lparr>http_method = ''GET'', path = ''/get_expenses'', payload = None, params = Some ps\<rparr>"

section \<open>Keys of the request body\<close>

lemma digit_char_in: "d < 10 \<Longrightarrow> digit_char d \<in> set ''0123456789''"
  unfolding digit_char_def by (rule nth_mem) simp

lemma str_nat_digits: "set (str_nat n) \<subseteq> set ''0123456789''"
proof (induction n rule: str_nat.induct)
  case (1 n)
  show ?case
  proof (cases "n < 10")
    case True
    then show ?thesis using digit_char_in [of n] by (subst str_nat.simps) simp
  next
    case False
    have "n mod 10 < 10" by simp
    from digit_char_in [OF this] 1 [OF False] False show ?thesis
      by (subst str_nat.simps) simp
  qed
qed

lemma underscore_not_in_str_nat: "CHR ''_'' \<notin> set (str_nat n)"
  using str_nat_digits [of n] by auto

lemma split_at_first:
  "c \<notin> set xs \<Longrightarrow> c \<notin> set ys \<Longrightarrow> xs @ c # r = ys @ c # s \<Longrightarrow> xs = ys \<and> r = s"
proof (induction xs arbitrary: ys)
  case Nil
  then show ?case by (cases ys) auto
next
  case (Cons x xs)
  then show ?case by (cases ys) auto
qed

lemma digit_char_inject: "a < 10 \<Longrightarrow> b < 10 \<Longrightarrow> digit_char a = digit_char b \<Longrightarrow> a = b"
  unfolding digit_char_def by (simp add: nth_eq_iff_index_eq)

lemma str_nat_nonempty: "str_nat n \<noteq> []"
  by (subst str_nat.simps) simp

lemma str_nat_inject: "str_nat n = str_nat m \<Longrightarrow> n = m"
proof (induction n arbitrary: m rule: str_nat.induct)
  case (1 n)
  show ?case
  proof (cases "n < 10")
    case n: True
    show ?thesis
    proof (cases "m < 10")
      case True
      with n "1.prems" show ?thesis
        by (simp add: str_nat.simps [of n] str_nat.simps [of m] digit_char_inject)
    next
      case False
      with n "1.prems" str_nat_nonempty [of "m div 10"] show ?thesis
        by (simp add: str_nat.simps [of n] str_nat.simps [of m])
    qed
  next
    case n: False
    show ?thesis
    proof (cases "m < 10")
      case True
      with n "1.prems" str_nat_nonempty [of "n div 10"] show ?thesis
        by (simp add: str_nat.simps [of n] str_nat.simps [of m])
    next
      case False
      with n "1.prems" have eq: "str_nat (n div 10) = str_nat (m div 10)"
        and d: "digit_char (n mod 10) = digit_char (m mod 10)"
        by (simp_all add: str_nat.simps [of n] str_nat.simps [of m])
      from "1.IH" [OF n eq] have "n div 10 = m div 10" .
      moreover from d have "n mod 10 = m mod 10" by (auto dest: digit_char_inject [rotated 2])
      ultimately show ?thesis by (metis div_mult_mod_eq)
    qed
  qed
qed

lemma users_key_inject [simp]: "users_key i f = users_key j g \<longleftrightarrow> i = j \<and> f = g"
proof
  assume "users_key i f = users_key j g"
  then have "str_nat i @ CHR ''_'' # (CHR ''_'' # f) = str_nat j @ CHR ''_'' # (CHR ''_'' # g)"
    by (simp add: users_key_def)
  from split_at_first [OF underscore_not_in_str_nat underscore_not_in_str_nat this]
  show "i = j \<and> f = g" by (auto dest: str_nat_inject)
qed simp

lemma users_key_not_base [simp]:
  "users_key i f \<noteq> ''cost''" "users_key i f \<noteq> ''description''" "users_key i f \<noteq> ''currency_code''"
  "''cost'' \<noteq> users_key i f" "''description'' \<noteq> users_key i f" "''currency_code'' \<noteq> users_key i f"
  by (simp_all add: users_key_def)

lemma entry_keys_Suc:
  "entry_keys (Suc n) = entry_keys n \<union>
     {users_key n ''user_id'', users_key n ''paid_share'', users_key n ''owed_share''}"
  by (auto simp: entry_keys_def lessThan_Suc)

lemma allocation_Suc:
  "allocation body (Suc n) =
     allocation body n @ [(body (users_key n ''user_id''), body (users_key n ''paid_share''),
                           body (users_key n ''owed_share''))]"
  by (simp add: allocation_def)

lemma allocation_upd_ge:
  "n \<le> k \<Longrightarrow> allocation (body(users_key k f \<mapsto> v)) n = allocation body n"
  by (simp add: allocation_def)

lemma fold_entries:
  assumes step: "\<And>idx x body. step (idx, x) body =
      body(users_key idx ''user_id'' \<mapsto> a x, users_key idx ''paid_share'' \<mapsto> b x,
           users_key idx ''owed_share'' \<mapsto> c x)"
  shows "i < length xs \<Longrightarrow>
           fold step (enumerate 0 xs) body (users_key i ''user_id'') = Some (a (xs ! i)) \<and>
           fold step (enumerate 0 xs) body (users_key i ''paid_share'') = Some (b (xs ! i)) \<and>
           fold step (enumerate 0 xs) body (users_key i ''owed_share'') = Some (c (xs ! i))"
    and "dom (fold step (enumerate 0 xs) body) = dom body \<union> entry_keys (length xs)"
    and "k \<notin> entry_keys (length xs) \<Longrightarrow> fold step (enumerate 0 xs) body k = body k"
proof (induction xs rule: rev_induct)
  case Nil
  {
    case 1 then show ?case by simp
  next
    case 2 show ?case by (simp add: entry_keys_def)
  next
    case 3 show ?case by simp
  }
next
  case (snoc x xs)
  let ?F = "fold step (enumerate 0 xs) body"
  have en: "fold step (enumerate 0 (xs @ [x])) body =
      ?F(users_key (length xs) ''user_id'' \<mapsto> a x, users_key (length xs) ''paid_share'' \<mapsto> b x,
         users_key (length xs) ''owed_share'' \<mapsto> c x)"
    by (simp add: enumerate_append_eq step)
  {
    case 1
    show ?case
    proof (cases "i < length xs")
      case True
      with snoc.IH(1) show ?thesis by (subst (1 2 3) en) (simp add: nth_append)
    next
      case False
      with 1 have "i = length xs" by simp
      then show ?thesis by (subst (1 2 3) en) simp
    qed
  next
    case 2
    show ?case
      by (subst en) (auto simp: entry_keys_Suc snoc.IH(2))
  next
    case 3
    then show ?case
      by (subst en) (auto simp: entry_keys_Suc snoc.IH(3))
  }
qed

lemma allocation_fold:
  assumes step: "\<And>idx x body. step (idx, x) body =
      body(users_key idx ''user_id'' \<mapsto> a x, users_key idx ''paid_share'' \<mapsto> b x,
           users_key idx ''owed_share'' \<mapsto> c x)"
  shows "allocation (fold step (enumerate 0 xs) body) (length xs) =
           map (\<lambda>x. (Some (a x), Some (b x), Some (c x))) xs"
  by (rule nth_equalityI) (simp_all add: allocation_def fold_entries(1) [OF step])

section \<open>Expense creation that fails\<close>

text \<open>
  C10. With split type \<^verbatim>\<open>equal\<close> and an empty participant list, the equal share divides
  the total by the participant count with no guard: the request is not rejected by a
  validation error (an \<^verbatim>\<open>HTTPException\<close> with status 400), it ends in the
  \<^verbatim>\<open>ZeroDivisionError\<close> of that division, before any downstream call.
\<close>

theorem equal_empty_divides_by_zero:
  assumes "split_type intent = ''equal''" and "participants intent = []"
  shows "create_expense_body intent = Inl ZeroDivisionError
         \<and> mcp_create_expense ds intent sent = (Inl ZeroDivisionError, sent)"
  using assms by (simp add: mcp_create_expense_def create_expense_body_def float_div_def)

text \<open>The first usage example with its participants removed.\<close>

theorem equal_empty_divides_by_zero_witness:
  "split_type (dinner_equal\<lparr>participants := []\<rparr>) = ''equal''
   \<and> participants (dinner_equal\<lparr>participants := []\<rparr>) = []
   \<and> create_expense_body (dinner_equal\<lparr>participants := []\<rparr>) = Inl ZeroDivisionError
   \<and> mcp_create_expense (\<lambda>r. None) (dinner_equal\<lparr>participants := []\<rparr>) [] = (Inl ZeroDivisionError, [])"
  using equal_empty_divides_by_zero [of "dinner_equal\<lparr>participants := []\<rparr>" "\<lambda>r. None" "[]"]
  by (simp add: dinner_equal_def)

text \<open>
  C6. A split type other than \<^verbatim>\<open>equal\<close>, \<^verbatim>\<open>shares\<close> and \<^verbatim>\<open>unequal\<close> makes
  \<^verbatim>\<open>create_expense\<close> fail with status 400, and no request is sent downstream.
\<close>

theorem invalid_split_type_rejected:
  assumes "split_type intent \<notin> {''equal'', ''shares'', ''unequal''}"
  shows "mcp_create_expense ds intent sent = (Inl (HTTPException 400 split_type_detail), sent)"
  using assms by (simp add: mcp_create_expense_def create_expense_body_def)

text \<open>The first usage example with the split type \<^verbatim>\<open>percent\<close>.\<close>

theorem invalid_split_type_rejected_witness:
  "split_type (dinner_equal\<lparr>split_type := ''percent''\<rparr>) \<notin> {''equal'', ''shares'', ''unequal''}
   \<and> mcp_create_expense (\<lambda>r. None) (dinner_equal\<lparr>split_type := ''percent''\<rparr>) []
       = (Inl (HTTPException 400 split_type_detail), [])"
  using invalid_split_type_rejected [of "dinner_equal\<lparr>split_type := ''percent''\<rparr>" "\<lambda>r. None" "[]"]
  by (simp add: dinner_equal_def)

text \<open>
  C5. With split type \<^verbatim>\<open>shares\<close> or \<^verbatim>\<open>unequal\<close>, when \<^verbatim>\<open>owed_shares\<close> is missing
  or its length differs from the number of participants, \<^verbatim>\<open>create_expense\<close> fails with
  status 400 and no request is sent downstream.
\<close>

theorem missing_owed_shares_rejected:
  assumes "split_type intent \<in> {''shares'', ''unequal''}"
    and "owed_shares intent = None
         \<or> (\<exists>shares. owed_shares intent = Some shares \<and> length shares \<noteq> length (participants intent))"
  shows "mcp_create_expense ds intent sent = (Inl (HTTPException 400 owed_shares_detail), sent)"
  using assms by (auto simp: mcp_create_expense_def create_expense_body_def)

text \<open>The second usage example with one owed share for two participants, and with none.\<close>

theorem missing_owed_shares_rejected_witness:
  "split_type (dinner_unequal\<lparr>owed_shares := Some [Finite 400]\<rparr>) \<in> {''shares'', ''unequal''}
   \<and> length [Finite 400] \<noteq> length (participants (dinner_unequal\<lparr>owed_shares := Some [Finite 400]\<rparr>))
   \<and> mcp_create_expense (\<lambda>r. None) (dinner_unequal\<lparr>owed_shares := Some [Finite 400]\<rparr>) []
       = (Inl (HTTPException 400 owed_shares_detail), [])
   \<and> mcp_create_expense (\<lambda>r. None) (dinner_unequal\<lparr>owed_shares := None\<rparr>) []
       = (Inl (HTTPException 400 owed_shares_detail), [])"
  using missing_owed_shares_rejected [of "dinner_unequal\<lparr>owed_shares := Some [Finite 400]\<rparr>" "\<lambda>r. None" "[]"]
    missing_owed_shares_rejected [of "dinner_unequal\<lparr>owed_shares := None\<rparr>" "\<lambda>r. None" "[]"]
  by (simp add: dinner_unequal_def)

section \<open>Properties of the downstream call\<close>

lemma snd_success [simp]: "snd (success r) = snd r"
  by (cases r) (auto simp: success_def split: sum.splits)

lemma snd_call_splitwise [simp]:
  "snd (call_splitwise ds meth url_path pl ps sent) =
     sent @ [\<lparr>http_method = meth, path = url_path, payload = pl, params = ps\<rparr>]"
  by (simp add: call_splitwise_def Let_def split: option.splits)

text \<open>
  C9. \<^verbatim>\<open>get_balance\<close> does not depend on its \<^verbatim>\<open>user_id\<close>: two calls that differ in
  it (and may face different downstream services) both send the lookup of the authenticated
  user, with no payload and no parameters, and when the two services answer that request
  with the same response the two calls return the same result.
\<close>

theorem get_balance_ignores_user_id:
  "snd (mcp_get_balance ds1 u1 sent) = sent @ [current_user_request]
   \<and> snd (mcp_get_balance ds2 u2 sent) = sent @ [current_user_request]
   \<and> (ds1 current_user_request = ds2 current_user_request
        \<longrightarrow> mcp_get_balance ds1 u1 sent = mcp_get_balance ds2 u2 sent)"
proof (intro conjI impI)
  show "snd (mcp_get_balance ds1 u1 sent) = sent @ [current_user_request]"
    and "snd (mcp_get_balance ds2 u2 sent) = sent @ [current_user_request]"
    by (simp_all add: mcp_get_balance_def current_user_request_def)
next
  assume "ds1 current_user_request = ds2 current_user_request"
  then show "mcp_get_balance ds1 u1 sent = mcp_get_balance ds2 u2 sent"
    by (simp add: mcp_get_balance_def current_user_request_def call_splitwise_def Let_def)
qed

text \<open>The calls for users 1 and 2, against a service that answers 200.\<close>

theorem get_balance_ignores_user_id_witness:
  "answers 200 ''{}'' (Some alice) current_user_request = answers 200 ''{}'' (Some alice) current_user_request
   \<and> mcp_get_balance (answers 200 ''{}'' (Some alice)) 1 [] = mcp_get_balance (answers 200 ''{}'' (Some alice)) 2 []
   \<and> mcp_get_balance (answers 200 ''{}'' (Some alice)) 1 [] = (Inr \<lparr>status = ''success'', data = alice\<rparr>, [current_user_request])"
  using get_balance_ignores_user_id [of "answers 200 ''{}'' (Some alice)" 1 "[]" "answers 200 ''{}'' (Some alice)" 2]
  by (simp add: mcp_get_balance_def current_user_request_def call_splitwise_def success_def answers_def)

lemma route_local_or_call:
  "(\<exists>intent e. op = CreateExpense intent \<and> create_expense_body intent = Inl e
       \<and> route ds op sent = (Inl e, sent))
   \<or> (\<exists>intent. op = CreateGroup intent \<and> users intent = None
       \<and> route ds op sent = (Inl TypeError, sent))
   \<or> (\<exists>m p pl ps. route ds op sent = success (call_splitwise ds m p pl ps sent))"
proof (cases op)
  case (CreateExpense intent)
  then show ?thesis
    by (cases "create_expense_body intent") (simp_all add: mcp_create_expense_def, blast)
next
  case (CreateGroup intent)
  then show ?thesis
    by (cases "users intent") (simp_all add: mcp_create_group_def, blast)
qed (simp_all add: mcp_list_expenses_def mcp_get_expense_def mcp_get_balance_def
       mcp_delete_group_def mcp_list_groups_def mcp_get_group_def mcp_list_friends_def
       mcp_add_friend_def mcp_delete_friend_def, blast+)

lemma call_splitwise_outcome:
  assumes "success (call_splitwise ds m p pl ps sent) = (res, sent')"
  shows "\<exists>req. sent' = sent @ [req]
           \<and> (ds req = None \<longrightarrow> res = Inl TransportError)
           \<and> (\<forall>resp. ds req = Some resp \<longrightarrow>
                 (status_code resp \<notin> {200, 201} \<longrightarrow>
                    res = Inl (HTTPException (status_code resp) (body_text resp)))
               \<and> (status_code resp \<in> {200, 201} \<longrightarrow>
                    (\<forall>j. json_body resp = Some j \<longrightarrow> res = Inr \<lparr>status = ''success'', data = j\<rparr>)
                  \<and> (json_body resp = None \<longrightarrow> res = Inl JSONDecodeError)))"
proof -
  let ?req = "\<lparr>http_method = m, path = p, payload = pl, params = ps\<rparr>"
  from assms have s: "sent' = sent @ [?req]"
    by (metis snd_success snd_call_splitwise snd_conv)
  from assms have r: "res = fst (success (call_splitwise ds m p pl ps sent))"
    by simp
  have "ds ?req = None \<longrightarrow> res = Inl TransportError"
    unfolding r by (simp add: call_splitwise_def success_def)
  moreover have "\<forall>resp. ds ?req = Some resp \<longrightarrow>
                 (status_code resp \<notin> {200, 201} \<longrightarrow>
                    res = Inl (HTTPException (status_code resp) (body_text resp)))
               \<and> (status_code resp \<in> {200, 201} \<longrightarrow>
                    (\<forall>j. json_body resp = Some j \<longrightarrow> res = Inr \<lparr>status = ''success'', data = j\<rparr>)
                  \<and> (json_body resp = None \<longrightarrow> res = Inl JSONDecodeError))"
    unfolding r by (simp add: call_splitwise_def success_def)
  ultimately show ?thesis
    using s by (intro exI [of _ ?req] conjI)
qed




section \<open>The filter of the expense list\<close>

text \<open>
  C8, as the claim states it, fails for the group identifier 0: \<^verbatim>\<open>if group_id:\<close> is false
  for it, so a call with \<^verbatim>\<open>group_id=0\<close> and \<^verbatim>\<open>user_id=5\<close> sends the filter
  \<^verbatim>\<open>friend_id=5\<close> and no \<^verbatim>\<open>group_id\<close>.
\<close>

theorem group_zero_does_not_take_precedence:
  "snd (mcp_list_expenses (answers 200 ''[]'' (Some (JList []))) (Some 5) (Some 0) [])
     = [expenses_request [''friend_id'' \<mapsto> VInt 5]]
   \<and> [''friend_id'' \<mapsto> VInt 5] ''group_id'' = None
   \<and> [''friend_id'' \<mapsto> VInt 5] \<noteq> [''group_id'' \<mapsto> VInt 0]"
proof -
  have "[''friend_id'' \<mapsto> VInt 5] ''group_id'' \<noteq> [''group_id'' \<mapsto> VInt 0] ''group_id''"
    by simp
  then have "[''friend_id'' \<mapsto> VInt 5] \<noteq> [''group_id'' \<mapsto> VInt 0]"
    by metis
  then show ?thesis
    by (simp add: mcp_list_expenses_def expenses_request_def list_expenses_params_def truthy_int_def)
qed

text \<open>
  C8, amended. Every call to \<^verbatim>\<open>list_expenses\<close> sends one request for the expenses, and
  its query is: only \<^verbatim>\<open>group_id\<close> when a group identifier other than 0 is supplied,
  whatever the user identifier is; only \<^verbatim>\<open>friend_id\<close> when the group identifier is absent
  or 0 and a user identifier other than 0 is supplied; empty when each identifier is absent
  or 0.
\<close>

theorem list_expenses_filter:
  "(\<forall>g. gid = Some g \<and> g \<noteq> 0 \<longrightarrow>
        snd (mcp_list_expenses ds uid gid sent) = sent @ [expenses_request [''group_id'' \<mapsto> VInt g]])
   \<and> (\<forall>u. (gid = None \<or> gid = Some 0) \<and> uid = Some u \<and> u \<noteq> 0 \<longrightarrow>
        snd (mcp_list_expenses ds uid gid sent) = sent @ [expenses_request [''friend_id'' \<mapsto> VInt u]])
   \<and> ((gid = None \<or> gid = Some 0) \<and> (uid = None \<or> uid = Some 0) \<longrightarrow>
        snd (mcp_list_expenses ds uid gid sent) = sent @ [expenses_request Map.empty])"
  by (auto simp: mcp_list_expenses_def expenses_request_def list_expenses_params_def truthy_int_def
        split: option.splits)

text \<open>Group 3 with user 5, user 5 alone, user 5 with group 0, and no identifier.\<close>

theorem list_expenses_filter_witness:
  "snd (mcp_list_expenses (\<lambda>r. None) (Some 5) (Some 3) []) = [] @ [expenses_request [''group_id'' \<mapsto> VInt 3]]
   \<and> snd (mcp_list_expenses (\<lambda>r. None) (Some 5) None []) = [] @ [expenses_request [''friend_id'' \<mapsto> VInt 5]]
   \<and> snd (mcp_list_expenses (\<lambda>r. None) (Some 5) (Some 0) []) = [] @ [expenses_request [''friend_id'' \<mapsto> VInt 5]]
   \<and> snd (mcp_list_expenses (\<lambda>r. None) None None []) = [] @ [expenses_request Map.empty]"
  using list_expenses_filter [of "Some 3" "\<lambda>r. None" "Some 5" "[]"]
    list_expenses_filter [of None "\<lambda>r. None" "Some 5" "[]"]
    list_expenses_filter [of "Some 0" "\<lambda>r. None" "Some 5" "[]"]
    list_expenses_filter [of None "\<lambda>r. None" None "[]"]
  by simp

section \<open>The allocation of an expense\<close>

lemma equal_step_entries:
  "equal_step intent share (idx, uid) body =
     body(users_key idx ''user_id'' \<mapsto> VInt uid,
          users_key idx ''paid_share'' \<mapsto>
            VStr (if uid = user_id intent then fmt2 (amount intent) else ''0.00''),
          users_key idx ''owed_share'' \<mapsto>
            VStr (if uid \<noteq> user_id intent then fmt2 share else ''0.00''))"
  by (simp add: equal_step_def)

lemma shares_step_entries:
  "shares_step intent (idx, x) body =
     body(users_key idx ''user_id'' \<mapsto> VInt (fst x),
          users_key idx ''paid_share'' \<mapsto>
            VStr (if fst x = user_id intent then fmt2 (amount intent) else ''0.00''),
          users_key idx ''owed_share'' \<mapsto> VStr (fmt2 (snd x)))"
  by (cases x) (simp add: shares_step_def)

lemma base_dom:
  "dom [''cost'' \<mapsto> a, ''description'' \<mapsto> b, ''currency_code'' \<mapsto> c] =
     {''cost'', ''description'', ''currency_code''}"
  by auto

lemma float_div_defined: "n \<noteq> 0 \<Longrightarrow> \<exists>q. float_div x n = Inr q"
  by (cases x) (simp_all add: float_div_def)

lemma create_expense_body_equal:
  assumes "split_type intent = ''equal''"
    and "float_div (amount intent) (length (participants intent)) = Inr q"
  shows "create_expense_body intent =
           Inr (fold (equal_step intent (py_round2 q)) (enumerate 0 (participants intent))
                  [''cost'' \<mapsto> VStr (fmt2 (amount intent)),
                   ''description'' \<mapsto> VStr (description intent),
                   ''currency_code'' \<mapsto> VStr (currency intent)])"
  using assms by (simp add: create_expense_body_def)

lemma allocate_equal:
  assumes "split_type intent = ''equal''"
    and "float_div (amount intent) (length (participants intent)) = Inr q"
  shows "allocate intent =
           Inr (map (\<lambda>uid. if uid = user_id intent
                            then triple uid (fmt2 (amount intent)) ''0.00''
                            else triple uid ''0.00'' (fmt2 (py_round2 q)))
                  (participants intent))"
  unfolding allocate_def create_expense_body_equal [OF assms] sum.case
  by (subst allocation_fold [OF equal_step_entries]) (simp add: triple_def)

lemma body_dom_equal:
  assumes "split_type intent = ''equal''"
    and "float_div (amount intent) (length (participants intent)) = Inr q"
  shows "\<exists>body. create_expense_body intent = Inr body
           \<and> dom body = {''cost'', ''description'', ''currency_code''}
                          \<union> entry_keys (length (participants intent))"
  unfolding create_expense_body_equal [OF assms]
  by (intro exI conjI, rule refl, subst fold_entries(2) [OF equal_step_entries])
    (simp only: base_dom)

lemma create_expense_body_shares:
  assumes "split_type intent \<in> {''shares'', ''unequal''}"
    and "owed_shares intent = Some shares" and "shares \<noteq> []"
    and "length shares = length (participants intent)"
  shows "create_expense_body intent =
           Inr (fold (shares_step intent) (enumerate 0 (zip (participants intent) shares))
                  [''cost'' \<mapsto> VStr (fmt2 (amount intent)),
                   ''description'' \<mapsto> VStr (description intent),
                   ''currency_code'' \<mapsto> VStr (currency intent)])"
  using assms by (auto simp: create_expense_body_def)

lemma allocate_shares:
  assumes "split_type intent \<in> {''shares'', ''unequal''}"
    and "owed_shares intent = Some shares" and "shares \<noteq> []"
    and "length shares = length (participants intent)"
  shows "allocate intent =
           Inr (map (\<lambda>(uid, s). triple uid (if uid = user_id intent then fmt2 (amount intent)
                                             else ''0.00'') (fmt2 s))
                  (zip (participants intent) shares))"
proof -
  have len: "length (participants intent) = length (zip (participants intent) shares)"
    using assms(4) by simp
  show ?thesis
    unfolding allocate_def create_expense_body_shares [OF assms] sum.case
    by (subst len, subst allocation_fold [OF shares_step_entries])
      (simp add: triple_def case_prod_beta)
qed

lemma body_dom_shares:
  assumes "split_type intent \<in> {''shares'', ''unequal''}"
    and "owed_shares intent = Some shares" and "shares \<noteq> []"
    and "length shares = length (participants intent)"
  shows "\<exists>body. create_expense_body intent = Inr body
           \<and> dom body = {''cost'', ''description'', ''currency_code''}
                          \<union> entry_keys (length (participants intent))"
proof -
  have len: "length (zip (participants intent) shares) = length (participants intent)"
    using assms(4) by simp
  show ?thesis
    unfolding create_expense_body_shares [OF assms]
    by (intro exI conjI, rule refl, subst fold_entries(2) [OF shares_step_entries])
      (simp only: base_dom len)
qed

lemma fmt2_examples:
  "fmt2 (Finite 400) = ''400.00''" "fmt2 (Finite 200) = ''200.00''"
  "fmt2 (Finite 135) = ''135.00''" "fmt2 (Finite 265) = ''265.00''"
  by (simp_all add: fmt2_def round_half_even_def fixed2_def str_nat.simps digit_char_def)

lemma half_of_400: "float_div (Finite 400) 2 = Inr (Finite 200)"
  by code_simp

lemma round_200: "py_round2 (Finite 200) = Finite 200"
  by code_simp

text \<open>
  C1. With split type \<^verbatim>\<open>equal\<close> and a non-empty list of distinct participants that
  contains the payer, the allocation has one triple for each participant, in the order of
  the list, and the body has no other participant entries: a participant other than the
  payer has paid \<^verbatim>\<open>0.00\<close> and owes \<^verbatim>\<open>round(total / count, 2)\<close> printed with two
  decimals, the payer has paid the total printed with two decimals and owes \<^verbatim>\<open>0.00\<close>.
\<close>

theorem equal_split_allocation:
  assumes "split_type intent = ''equal''"
    and "participants intent \<noteq> []"
    and "distinct (participants intent)"
    and "user_id intent \<in> set (participants intent)"
  shows "\<exists>q. float_div (amount intent) (length (participants intent)) = Inr q
           \<and> allocate intent =
               Inr (map (\<lambda>uid. if uid = user_id intent
                                then triple uid (fmt2 (amount intent)) ''0.00''
                                else triple uid ''0.00'' (fmt2 (py_round2 q)))
                      (participants intent))
           \<and> (\<exists>body. create_expense_body intent = Inr body
                  \<and> dom body = {''cost'', ''description'', ''currency_code''}
                                 \<union> entry_keys (length (participants intent)))"
proof -
  from assms(2) float_div_defined [of "length (participants intent)" "amount intent"]
  obtain q where q: "float_div (amount intent) (length (participants intent)) = Inr q"
    by auto
  show ?thesis
    using q allocate_equal [OF assms(1) q] body_dom_equal [OF assms(1) q]
    by (intro exI [of _ q] conjI)
qed

text \<open>
  The first usage example: a total of 400, participants 1 and 2, payer 1 give
  \<open>(1, 400.00, 0.00)\<close> and \<open>(2, 0.00, 200.00)\<close>.
\<close>

theorem equal_split_allocation_witness:
  "split_type dinner_equal = ''equal''
   \<and> participants dinner_equal \<noteq> []
   \<and> distinct (participants dinner_equal)
   \<and> user_id dinner_equal \<in> set (participants dinner_equal)
   \<and> allocate dinner_equal = Inr [triple 1 ''400.00'' ''0.00'', triple 2 ''0.00'' ''200.00'']"
proof -
  have h: "split_type dinner_equal = ''equal''" "participants dinner_equal \<noteq> []"
    "distinct (participants dinner_equal)" "user_id dinner_equal \<in> set (participants dinner_equal)"
    by (simp_all add: dinner_equal_def)
  from equal_split_allocation [OF h] obtain q
    where q: "float_div (amount dinner_equal) (length (participants dinner_equal)) = Inr q"
      and a: "allocate dinner_equal =
               Inr (map (\<lambda>uid. if uid = user_id dinner_equal
                                then triple uid (fmt2 (amount dinner_equal)) ''0.00''
                                else triple uid ''0.00'' (fmt2 (py_round2 q)))
                      (participants dinner_equal))"
    by (elim exE conjE)
  from q have "q = Finite 200" by (simp add: dinner_equal_def half_of_400 flip: numeral_2_eq_2)
  with a have "allocate dinner_equal = Inr [triple 1 ''400.00'' ''0.00'', triple 2 ''0.00'' ''200.00'']"
    by (simp add: dinner_equal_def round_200 fmt2_examples)
  with h show ?thesis by simp
qed

lemma paid_column_equal:
  "map (\<lambda>(u, p, w). (u, p))
     (map (\<lambda>uid. if uid = payer then triple uid tot ''0.00'' else triple uid ''0.00'' share) ps) =
   map (\<lambda>uid. (Some (VInt uid), Some (VStr (if uid = payer then tot else ''0.00'')))) ps"
  by (simp add: triple_def)

lemma paid_column_shares:
  assumes "length shares = length ps"
  shows "map (\<lambda>(u, p, w). (u, p))
           (map (\<lambda>(uid, s). triple uid (if uid = payer then tot else ''0.00'') (fmt2 s))
              (zip ps shares)) =
         map (\<lambda>uid. (Some (VInt uid), Some (VStr (if uid = payer then tot else ''0.00'')))) ps"
proof -
  have "map (\<lambda>(u, p, w). (u, p))
           (map (\<lambda>(uid, s). triple uid (if uid = payer then tot else ''0.00'') (fmt2 s))
              (zip ps shares)) =
        map (\<lambda>uid. (Some (VInt uid), Some (VStr (if uid = payer then tot else ''0.00''))))
          (map fst (zip ps shares))"
    by (simp add: triple_def case_prod_beta)
  also have "map fst (zip ps shares) = ps"
    using assms by simp
  finally show ?thesis .
qed

lemma owed_column_shares:
  assumes "length shares = length ps"
  shows "map (\<lambda>(u, p, w). w)
           (map (\<lambda>(uid, s). triple uid (if uid = payer then tot else ''0.00'') (fmt2 s))
              (zip ps shares)) =
         map (\<lambda>s. Some (VStr (fmt2 s))) shares"
proof -
  have "map (\<lambda>(u, p, w). w)
           (map (\<lambda>(uid, s). triple uid (if uid = payer then tot else ''0.00'') (fmt2 s))
              (zip ps shares)) =
        map (\<lambda>s. Some (VStr (fmt2 s))) (map snd (zip ps shares))"
    by (simp add: triple_def case_prod_beta)
  also have "map snd (zip ps shares) = shares"
    using assms by simp
  finally show ?thesis .
qed

lemma allocate_dinner_unequal:
  "allocate dinner_unequal = Inr [triple 1 ''400.00'' ''135.00'', triple 2 ''0.00'' ''265.00'']"
proof -
  have "allocate dinner_unequal =
      Inr (map (\<lambda>(uid, s). triple uid (if uid = user_id dinner_unequal
                                         then fmt2 (amount dinner_unequal) else ''0.00'') (fmt2 s))
             (zip (participants dinner_unequal) [Finite 135, Finite 265]))"
    by (rule allocate_shares) (simp_all add: dinner_unequal_def)
  then show ?thesis by (simp add: dinner_unequal_def fmt2_examples)
qed

text \<open>
  C3, as the claim states it, fails for the split types \<^verbatim>\<open>shares\<close> and \<^verbatim>\<open>unequal\<close>:
  there the owed amount of the payer is the supplied share, as for everyone else. In the
  second usage example the payer 1 owes \<^verbatim>\<open>135.00\<close>, not \<^verbatim>\<open>0.00\<close>.
\<close>

theorem payer_owes_supplied_share:
  "user_id dinner_unequal = 1
   \<and> allocate dinner_unequal = Inr [triple 1 ''400.00'' ''135.00'', triple 2 ''0.00'' ''265.00'']
   \<and> triple 1 ''400.00'' ''135.00'' \<noteq> triple 1 ''400.00'' ''0.00''"
  by (simp add: allocate_dinner_unequal) (simp add: dinner_unequal_def triple_def)

text \<open>
  C3, amended. For split type \<^verbatim>\<open>equal\<close>, and for \<^verbatim>\<open>shares\<close> or \<^verbatim>\<open>unequal\<close> with a
  non-empty list of owed shares as long as the list of participants, with non-empty distinct
  participants that contain the payer: the allocation is made, the payer has paid the total
  and every other participant \<^verbatim>\<open>0.00\<close>; the payer owes \<^verbatim>\<open>0.00\<close> under \<^verbatim>\<open>equal\<close>,
  and under \<^verbatim>\<open>shares\<close> or \<^verbatim>\<open>unequal\<close> every participant, the payer too, owes the
  supplied share of the same index.
\<close>

theorem payer_pays_total:
  assumes "split_type intent = ''equal''
           \<or> (split_type intent \<in> {''shares'', ''unequal''} \<and> owed_shares intent = Some shares
               \<and> shares \<noteq> [] \<and> length shares = length (participants intent))"
    and "participants intent \<noteq> []"
    and "distinct (participants intent)"
    and "user_id intent \<in> set (participants intent)"
  shows "\<exists>a. allocate intent = Inr a
           \<and> map (\<lambda>(u, p, w). (u, p)) a =
               map (\<lambda>uid. (Some (VInt uid),
                             Some (VStr (if uid = user_id intent then fmt2 (amount intent)
                                         else ''0.00''))))
                 (participants intent)
           \<and> (split_type intent = ''equal'' \<longrightarrow>
                 (\<forall>i < length (participants intent). participants intent ! i = user_id intent
                    \<longrightarrow> snd (snd (a ! i)) = Some (VStr ''0.00'')))
           \<and> (split_type intent \<noteq> ''equal'' \<longrightarrow>
                 map (\<lambda>(u, p, w). w) a = map (\<lambda>s. Some (VStr (fmt2 s))) shares)"
proof (cases "split_type intent = ''equal''")
  case True
  from assms(2) float_div_defined [of "length (participants intent)" "amount intent"]
  obtain q where q: "float_div (amount intent) (length (participants intent)) = Inr q"
    by auto
  let ?a = "map (\<lambda>uid. if uid = user_id intent
                        then triple uid (fmt2 (amount intent)) ''0.00''
                        else triple uid ''0.00'' (fmt2 (py_round2 q)))
              (participants intent)"
  have "allocate intent = Inr ?a"
    by (rule allocate_equal [OF True q])
  moreover have "map (\<lambda>(u, p, w). (u, p)) ?a =
               map (\<lambda>uid. (Some (VInt uid),
                             Some (VStr (if uid = user_id intent then fmt2 (amount intent)
                                         else ''0.00''))))
                 (participants intent)"
    by (rule paid_column_equal)
  moreover have "\<forall>i < length (participants intent). participants intent ! i = user_id intent
                    \<longrightarrow> snd (snd (?a ! i)) = Some (VStr ''0.00'')"
    by (simp add: triple_def)
  ultimately show ?thesis using True by (intro exI [of _ ?a]) simp
next
  case False
  with assms(1) have sh: "split_type intent \<in> {''shares'', ''unequal''}"
    "owed_shares intent = Some shares" "shares \<noteq> []"
    "length shares = length (participants intent)"
    by simp_all
  let ?a = "map (\<lambda>(uid, s). triple uid (if uid = user_id intent then fmt2 (amount intent)
                                       else ''0.00'') (fmt2 s))
              (zip (participants intent) shares)"
  have "allocate intent = Inr ?a"
    by (rule allocate_shares [OF sh])
  moreover have "map (\<lambda>(u, p, w). (u, p)) ?a =
               map (\<lambda>uid. (Some (VInt uid),
                             Some (VStr (if uid = user_id intent then fmt2 (amount intent)
                                         else ''0.00''))))
                 (participants intent)"
    by (rule paid_column_shares [OF sh(4)])
  moreover have "map (\<lambda>(u, p, w). w) ?a = map (\<lambda>s. Some (VStr (fmt2 s))) shares"
    by (rule owed_column_shares [OF sh(4)])
  ultimately show ?thesis using False by (intro exI [of _ ?a]) simp
qed

text \<open>The first and the second usage example.\<close>

theorem payer_pays_total_witness:
  "(\<exists>a. allocate dinner_equal = Inr a
        \<and> map (\<lambda>(u, p, w). (u, p)) a =
            [(Some (VInt 1), Some (VStr ''400.00'')), (Some (VInt 2), Some (VStr ''0.00''))]
        \<and> snd (snd (a ! 0)) = Some (VStr ''0.00''))
   \<and> (\<exists>a. allocate dinner_unequal = Inr a
        \<and> map (\<lambda>(u, p, w). (u, p)) a =
            [(Some (VInt 1), Some (VStr ''400.00'')), (Some (VInt 2), Some (VStr ''0.00''))]
        \<and> map (\<lambda>(u, p, w). w) a = [Some (VStr ''135.00''), Some (VStr ''265.00'')])"
proof -
  have "split_type dinner_equal = ''equal''
           \<or> (split_type dinner_equal \<in> {''shares'', ''unequal''} \<and> owed_shares dinner_equal = Some []
               \<and> [] \<noteq> [] \<and> length [] = length (participants dinner_equal))"
    and "participants dinner_equal \<noteq> []"
    and "distinct (participants dinner_equal)"
    and "user_id dinner_equal \<in> set (participants dinner_equal)"
    by (simp_all add: dinner_equal_def)
  from payer_pays_total [OF this] obtain a
    where a: "allocate dinner_equal = Inr a"
      and p: "map (\<lambda>(u, p, w). (u, p)) a =
               map (\<lambda>uid. (Some (VInt uid),
                             Some (VStr (if uid = user_id dinner_equal
                                         then fmt2 (amount dinner_equal) else ''0.00''))))
                 (participants dinner_equal)"
      and w: "split_type dinner_equal = ''equal'' \<longrightarrow>
                 (\<forall>i < length (participants dinner_equal).
                    participants dinner_equal ! i = user_id dinner_equal
                    \<longrightarrow> snd (snd (a ! i)) = Some (VStr ''0.00''))"
    by (elim exE conjE)
  from w have "snd (snd (a ! 0)) = Some (VStr ''0.00'')"
    by (simp add: dinner_equal_def)
  moreover from p have "map (\<lambda>(u, p, w). (u, p)) a =
            [(Some (VInt 1), Some (VStr ''400.00'')), (Some (VInt 2), Some (VStr ''0.00''))]"
    by (simp add: dinner_equal_def fmt2_examples)
  ultimately have e: "\<exists>a. allocate dinner_equal = Inr a
        \<and> map (\<lambda>(u, p, w). (u, p)) a =
            [(Some (VInt 1), Some (VStr ''400.00'')), (Some (VInt 2), Some (VStr ''0.00''))]
        \<and> snd (snd (a ! 0)) = Some (VStr ''0.00'')"
    using a by (intro exI [of _ a] conjI)
  have "split_type dinner_unequal = ''equal''
           \<or> (split_type dinner_unequal \<in> {''shares'', ''unequal''}
               \<and> owed_shares dinner_unequal = Some [Finite 135, Finite 265]
               \<and> [Finite 135, Finite 265] \<noteq> []
               \<and> length [Finite 135, Finite 265] = length (participants dinner_unequal))"
    and "participants dinner_unequal \<noteq> []"
    and "distinct (participants dinner_unequal)"
    and "user_id dinner_unequal \<in> set (participants dinner_unequal)"
    by (simp_all add: dinner_unequal_def)
  from payer_pays_total [OF this]
  have u: "\<exists>a. allocate dinner_unequal = Inr a
        \<and> map (\<lambda>(u, p, w). (u, p)) a =
            [(Some (VInt 1), Some (VStr ''400.00'')), (Some (VInt 2), Some (VStr ''0.00''))]
        \<and> map (\<lambda>(u, p, w). w) a = [Some (VStr ''135.00''), Some (VStr ''265.00'')]"
    by (simp add: dinner_unequal_def fmt2_examples)
  from e u show ?thesis by (rule conjI)
qed

text \<open>
  C4, as the claim states it, fails when both lists are empty: \<^verbatim>\<open>not intent.owed_shares\<close>
  is true for the empty list, so an empty list of owed shares for an empty list of
  participants, of the same length, is rejected with status 400.
\<close>

theorem empty_owed_shares_rejected:
  "length ([] :: pyfloat list)
     = length (participants (dinner_unequal\<lparr>participants := [], owed_shares := Some []\<rparr>))
   \<and> allocate (dinner_unequal\<lparr>participants := [], owed_shares := Some []\<rparr>)
       = Inl (HTTPException 400 owed_shares_detail)
   \<and> mcp_create_expense (answers 200 ''{}'' (Some alice))
         (dinner_unequal\<lparr>participants := [], owed_shares := Some []\<rparr>) []
       = (Inl (HTTPException 400 owed_shares_detail), [])"
  by (simp add: dinner_unequal_def allocate_def mcp_create_expense_def create_expense_body_def)

text \<open>
  C4, amended. With split type \<^verbatim>\<open>shares\<close> or \<^verbatim>\<open>unequal\<close> and a non-empty list of owed
  shares as long as the list of participants, the owed amount at each index of the
  allocation is the supplied owed share of that index printed with two decimals, in the
  same order; nothing compares the shares with the total, so whatever their sum is the
  request is sent downstream with that body.
\<close>

theorem owed_shares_passed_through:
  assumes "split_type intent \<in> {''shares'', ''unequal''}"
    and "owed_shares intent = Some shares"
    and "shares \<noteq> []"
    and "length shares = length (participants intent)"
  shows "\<exists>a body. allocate intent = Inr a
           \<and> map (\<lambda>(u, p, w). w) a = map (\<lambda>s. Some (VStr (fmt2 s))) shares
           \<and> create_expense_body intent = Inr body
           \<and> snd (mcp_create_expense ds intent sent) =
               sent @ [\<lparr>http_method = ''POST'', path = ''/create_expense'',
                         payload = Some body, params = None\<rparr>]"
proof -
  let ?a = "map (\<lambda>(uid, s). triple uid (if uid = user_id intent then fmt2 (amount intent)
                                       else ''0.00'') (fmt2 s))
              (zip (participants intent) shares)"
  let ?body = "fold (shares_step intent) (enumerate 0 (zip (participants intent) shares))
                  [''cost'' \<mapsto> VStr (fmt2 (amount intent)),
                   ''description'' \<mapsto> VStr (description intent),
                   ''currency_code'' \<mapsto> VStr (currency intent)]"
  have a: "allocate intent = Inr ?a"
    by (rule allocate_shares [OF assms])
  have w: "map (\<lambda>(u, p, w). w) ?a = map (\<lambda>s. Some (VStr (fmt2 s))) shares"
    by (rule owed_column_shares [OF assms(4)])
  have b: "create_expense_body intent = Inr ?body"
    by (rule create_expense_body_shares [OF assms])
  have "snd (mcp_create_expense ds intent sent) =
               sent @ [\<lparr>http_method = ''POST'', path = ''/create_expense'',
                         payload = Some ?body, params = None\<rparr>]"
    by (simp add: mcp_create_expense_def b)
  with a w b show ?thesis
    by (intro exI [of _ ?a] exI [of _ ?body] conjI)
qed

text \<open>
  The second usage example with the owed shares 135 and 200, which add up to 335 for a
  total of 400.
\<close>

theorem owed_shares_passed_through_witness:
  "split_type (dinner_unequal\<lparr>owed_shares := Some [Finite 135, Finite 200]\<rparr>) \<in> {''shares'', ''unequal''}
   \<and> [Finite 135, Finite 200] \<noteq> []
   \<and> length [Finite 135, Finite 200]
       = length (participants (dinner_unequal\<lparr>owed_shares := Some [Finite 135, Finite 200]\<rparr>))
   \<and> (\<exists>a body. allocate (dinner_unequal\<lparr>owed_shares := Some [Finite 135, Finite 200]\<rparr>) = Inr a
         \<and> map (\<lambda>(u, p, w). w) a = [Some (VStr ''135.00''), Some (VStr ''200.00'')]
         \<and> snd (mcp_create_expense (answers 200 ''{}'' (Some alice))
                   (dinner_unequal\<lparr>owed_shares := Some [Finite 135, Finite 200]\<rparr>) []) =
             [\<lparr>http_method = ''POST'', path = ''/create_expense'',
               payload = Some body, params = None\<rparr>])"
proof -
  let ?i = "dinner_unequal\<lparr>owed_shares := Some [Finite 135, Finite 200]\<rparr>"
  have h: "split_type ?i \<in> {''shares'', ''unequal''}"
    "owed_shares ?i = Some [Finite 135, Finite 200]"
    "[Finite 135, Finite 200] \<noteq> []"
    "length [Finite 135, Finite 200] = length (participants ?i)"
    by (simp_all add: dinner_unequal_def)
  from owed_shares_passed_through [OF h, of "answers 200 ''{}'' (Some alice)" "[]"] obtain a body
    where "allocate ?i = Inr a"
      and "map (\<lambda>(u, p, w). w) a = map (\<lambda>s. Some (VStr (fmt2 s))) [Finite 135, Finite 200]"
      and "snd (mcp_create_expense (answers 200 ''{}'' (Some alice)) ?i []) =
               [] @ [\<lparr>http_method = ''POST'', path = ''/create_expense'',
                       payload = Some body, params = None\<rparr>]"
    by (elim exE conjE)
  then have "\<exists>a body. allocate ?i = Inr a
         \<and> map (\<lambda>(u, p, w). w) a = [Some (VStr ''135.00''), Some (VStr ''200.00'')]
         \<and> snd (mcp_create_expense (answers 200 ''{}'' (Some alice)) ?i []) =
             [\<lparr>http_method = ''POST'', path = ''/create_expense'',
               payload = Some body, params = None\<rparr>]"
    by (intro exI [of _ a] exI [of _ body]) (simp add: fmt2_examples)
  with h show ?thesis by simp
qed

section \<open>Reading the printed amounts back\<close>

lemma digit_value: "d < 10 \<Longrightarrow> of_char (digit_char d) - 48 = d"
proof -
  assume "d < 10"
  then have "d = 0 \<or> d = 1 \<or> d = 2 \<or> d = 3 \<or> d = 4 \<or> d = 5 \<or> d = 6 \<or> d = 7 \<or> d = 8 \<or> d = 9"
    by arith
  then show ?thesis
    by (elim disjE) (simp_all add: digit_char_def)
qed

lemma foldl_digits_str_nat:
  "foldl (\<lambda>a c. 10 * a + (of_char c - 48)) 0 (str_nat n) = n"
proof (induction n rule: str_nat.induct)
  case (1 n)
  show ?case
  proof (cases "n < 10")
    case True
    then show ?thesis by (subst str_nat.simps) (simp add: digit_value)
  next
    case False
    have "n mod 10 < 10" by simp
    from digit_value [OF this] 1 [OF False] False show ?thesis
      by (subst str_nat.simps) simp
  qed
qed

lemma digits_value_str_nat: "digits_value (str_nat n) = Some n"
  using str_nat_digits [of n]
  by (simp add: digits_value_def str_nat_nonempty foldl_digits_str_nat)

lemma digits_value_pair:
  assumes "a < 10" and "b < 10"
  shows "digits_value [digit_char a, digit_char b] = Some (10 * a + b)"
  using digit_char_in [OF assms(1)] digit_char_in [OF assms(2)]
  by (simp add: digits_value_def digit_value [OF assms(1)] digit_value [OF assms(2)])

lemma hundredths_digits: "(c::nat) div 100 * 100 + (10 * (c mod 100 div 10) + c mod 10) = c"
proof -
  have "c mod 10 = c mod 100 mod 10"
    by (simp add: mod_mod_cancel)
  then have "10 * (c mod 100 div 10) + c mod 10 = c mod 100"
    by (simp only: mult_div_mod_eq)
  then show ?thesis
    by (simp only: div_mult_mod_eq)
qed

lemma cents_abs_fixed2: "cents_abs (fixed2 c) = Some (int c)"
proof -
  let ?s = "str_nat (c div 100)"
  let ?d = "[digit_char (c mod 100 div 10), digit_char (c mod 10)]"
  have f: "fixed2 c = ?s @ CHR ''.'' # ?d"
    by (simp add: fixed2_def)
  have len: "length (fixed2 c) = length ?s + 3"
    by (simp add: f)
  have dot: "fixed2 c ! (length ?s) = CHR ''.''"
    by (simp add: f)
  have tk: "take (length ?s) (fixed2 c) = ?s"
    by (simp add: f)
  have dr: "drop (length ?s + 1) (fixed2 c) = ?d"
    by (simp add: f)
  have "c mod 100 div 10 < 10" and "c mod 10 < 10"
    by simp_all
  then have two: "digits_value ?d = Some (10 * (c mod 100 div 10) + c mod 10)"
    by (rule digits_value_pair)
  note ar = hundredths_digits [of c]
  have n3: "length (fixed2 c) - 3 = length ?s" and n2: "length (fixed2 c) - 2 = length ?s + 1"
    by (simp_all add: len)
  have long: "\<not> length (fixed2 c) < 4"
    using str_nat_nonempty [of "c div 100"] by (simp add: len)
  have "cents_abs (fixed2 c) =
      Some (int (c div 100 * 100 + (10 * (c mod 100 div 10) + c mod 10)))"
    unfolding cents_abs_def Let_def n3 n2 dot tk dr two digits_value_str_nat
    using long by (simp only: if_False simp_thms option.case prod.case)
  then show ?thesis
    by (simp only: ar)
qed

lemma fixed2_Cons: "\<exists>x xs. fixed2 c = x # xs \<and> x \<noteq> CHR ''-''"
proof -
  obtain x xs where s: "str_nat (c div 100) = x # xs"
    using str_nat_nonempty [of "c div 100"] by (cases "str_nat (c div 100)") auto
  with str_nat_digits [of "c div 100"] have "x \<noteq> CHR ''-''"
    by auto
  with s show ?thesis by (simp add: fixed2_def)
qed

lemma cents_of_string_fixed2: "cents_of_string (fixed2 c) = Some (int c)"
proof -
  from fixed2_Cons [of c] obtain x xs where "fixed2 c = x # xs" and "x \<noteq> CHR ''-''"
    by auto
  then have "cents_of_string (fixed2 c) = cents_abs (fixed2 c)"
    by (simp add: cents_of_string_def)
  then show ?thesis by (simp add: cents_abs_fixed2)
qed

lemma round_half_even_nonneg: "0 \<le> x \<Longrightarrow> 0 \<le> round_half_even x"
  by (simp add: round_half_even_def Let_def)

lemma cents_of_string_zero: "cents_of_string ''0.00'' = Some 0"
  using cents_of_string_fixed2 [of 0]
  by (simp add: fixed2_def str_nat.simps digit_char_def)

text \<open>Reading back what \<^verbatim>\<open>f"{x:.2f}"\<close> printed gives the float to currency precision.\<close>

lemma cents_of_string_fmt2: "cents_of_string (fmt2 x) = cents x"
proof (cases x)
  case (Finite q)
  have nn: "0 \<le> round_half_even (\<bar>q\<bar> * 100)"
    by (rule round_half_even_nonneg) simp
  show ?thesis
  proof (cases "q < 0")
    case True
    have "cents_of_string (CHR ''-'' # fixed2 (nat (round_half_even (\<bar>q\<bar> * 100)))) =
        map_option uminus (cents_abs (fixed2 (nat (round_half_even (\<bar>q\<bar> * 100)))))"
      by (simp add: cents_of_string_def)
    with True nn show ?thesis
      by (simp add: Finite fmt2_def cents_def cents_abs_fixed2)
  next
    case False
    with nn show ?thesis
      by (simp add: Finite fmt2_def cents_def cents_of_string_fixed2)
  qed
next
  case NegZero
  have "cents_abs ''0.00'' = Some 0"
    using cents_abs_fixed2 [of 0] by (simp add: fixed2_def str_nat.simps digit_char_def)
  then show ?thesis
    by (simp add: NegZero fmt2_def cents_def cents_of_string_def)
next
  case PosInf
  then show ?thesis
    by (simp add: fmt2_def cents_def cents_of_string_def cents_abs_def)
next
  case NegInf
  then show ?thesis
    by (simp add: fmt2_def cents_def cents_of_string_def cents_abs_def)
next
  case NaN
  then show ?thesis
    by (simp add: fmt2_def cents_def cents_of_string_def cents_abs_def)
qed

lemma sum_cents_one:
  assumes "distinct ps" and "payer \<in> set ps"
  shows "sum_cents (map (\<lambda>uid. if uid = payer then c else Some 0) ps) = c"
  using assms
proof (induction ps)
  case Nil
  then show ?case by simp
next
  case (Cons u ps)
  have zeros: "payer \<notin> set xs \<Longrightarrow>
      sum_cents (map (\<lambda>uid. if uid = payer then c else Some 0) xs) = Some 0" for xs
    by (induction xs) auto
  show ?case
  proof (cases "u = payer")
    case True
    with Cons.prems have "payer \<notin> set ps" by simp
    from zeros [OF this] True show ?thesis by (simp split: option.splits)
  next
    case False
    with Cons show ?thesis by (cases c) simp_all
  qed
qed

lemma sum_cents_others:
  "sum_cents (map (\<lambda>uid. if uid = payer then Some 0 else Some c) ps) =
     Some (int (length (filter (\<lambda>u. u \<noteq> payer) ps)) * c)"
  by (induction ps) (simp_all add: algebra_simps)

lemma count_others:
  assumes "distinct ps"
  shows "length (filter (\<lambda>u. u \<noteq> payer) ps) =
           (if payer \<in> set ps then length ps - 1 else length ps)"
  using assms
proof (induction ps)
  case Nil
  then show ?case by simp
next
  case (Cons u ps)
  show ?case
  proof (cases "u = payer")
    case True
    with Cons show ?thesis by simp
  next
    case False
    show ?thesis
    proof (cases "payer \<in> set ps")
      case True
      then have "0 < length ps" by (rule length_pos_if_in_set)
      with Cons False True show ?thesis by simp
    next
      case notin: False
      with Cons False show ?thesis by simp
    qed
  qed
qed

lemma paid_sum_column:
  "paid_sum a = sum_cents (map (\<lambda>(u, p). cents_entry p) (map (\<lambda>(u, p, w). (u, p)) a))"
  by (simp add: paid_sum_def case_prod_unfold comp_def)

lemma owed_sum_column:
  "owed_sum a = sum_cents (map cents_entry (map (\<lambda>(u, p, w). w) a))"
  by (simp add: owed_sum_def case_prod_unfold comp_def)

lemma paid_sum_payer:
  assumes "map (\<lambda>(u, p, w). (u, p)) a =
             map (\<lambda>uid. (Some (VInt uid), Some (VStr (if uid = payer then fmt2 x else ''0.00'')))) ps"
    and "distinct ps" and "payer \<in> set ps"
  shows "paid_sum a = cents x"
proof -
  have "(\<lambda>uid. cents_entry (Some (VStr (if uid = payer then fmt2 x else ''0.00'')))) =
        (\<lambda>uid. if uid = payer then cents x else Some 0)"
    by (rule ext) (simp add: cents_entry_def cents_of_string_fmt2 cents_of_string_zero)
  then have "paid_sum a = sum_cents (map (\<lambda>uid. if uid = payer then cents x else Some 0) ps)"
    unfolding paid_sum_column assms(1) by (simp add: comp_def)
  then show ?thesis
    by (simp only: sum_cents_one [OF assms(2,3)])
qed

lemma owed_sum_equal:
  assumes "distinct ps" and "payer \<in> set ps" and "cents share = Some c"
  shows "owed_sum (map (\<lambda>uid. if uid = payer then triple uid tot ''0.00''
                               else triple uid ''0.00'' (fmt2 share)) ps) =
           Some (int (length ps - 1) * c)"
proof -
  have "(\<lambda>uid. cents_entry (case (if uid = payer then triple uid tot ''0.00''
                                   else triple uid ''0.00'' (fmt2 share)) of (u, p, w) \<Rightarrow> w)) =
        (\<lambda>uid. if uid = payer then Some 0 else Some c)"
    by (rule ext)
      (simp add: triple_def cents_entry_def cents_of_string_fmt2 cents_of_string_zero assms(3))
  then have "owed_sum (map (\<lambda>uid. if uid = payer then triple uid tot ''0.00''
                               else triple uid ''0.00'' (fmt2 share)) ps) =
        sum_cents (map (\<lambda>uid. if uid = payer then Some 0 else Some c) ps)"
    unfolding owed_sum_column by (simp add: comp_def)
  then show ?thesis
    by (simp only: sum_cents_others count_others [OF assms(1)] assms(2) if_True)
qed

lemma owed_sum_shares:
  assumes "map (\<lambda>(u, p, w). w) a = map (\<lambda>s. Some (VStr (fmt2 s))) shares"
  shows "owed_sum a = sum_cents (map cents shares)"
  unfolding owed_sum_column assms
  by (simp add: comp_def cents_entry_def cents_of_string_fmt2)

lemma allocate_dinner_equal:
  "allocate dinner_equal = Inr [triple 1 ''400.00'' ''0.00'', triple 2 ''0.00'' ''200.00'']"
proof -
  have q: "float_div (amount dinner_equal) (length (participants dinner_equal)) = Inr (Finite 200)"
    by (simp add: dinner_equal_def half_of_400 flip: numeral_2_eq_2)
  have "split_type dinner_equal = ''equal''"
    by (simp add: dinner_equal_def)
  from allocate_equal [OF this q] show ?thesis
    by (simp add: dinner_equal_def round_200 fmt2_examples)
qed

lemma cents_examples:
  "cents (Finite 400) = Some 40000" "cents (Finite 200) = Some 20000"
  "cents (Finite 135) = Some 13500" "cents (Finite 265) = Some 26500"
  by (simp_all add: cents_def round_half_even_def)

lemma cents_of_string_examples:
  "cents_of_string ''400.00'' = Some 40000" "cents_of_string ''200.00'' = Some 20000"
  using cents_of_string_fmt2 [of "Finite 400"] cents_of_string_fmt2 [of "Finite 200"]
  by (simp_all add: fmt2_examples cents_examples)

section \<open>The sums of an allocation\<close>

text \<open>
  C2, as the claim states it, fails for the owed amounts. In the first usage example
  (total 400, participants 1 and 2, payer 1, split type \<^verbatim>\<open>equal\<close>) the paid amounts add
  up to 400.00, the total, and the owed amounts add up to 200.00, since the payer owes
  \<^verbatim>\<open>0.00\<close>. Amounts are in hundredths.
\<close>

theorem equal_split_owed_sum_is_not_total:
  "allocate dinner_equal = Inr [triple 1 ''400.00'' ''0.00'', triple 2 ''0.00'' ''200.00'']
   \<and> cents (amount dinner_equal) = Some 40000
   \<and> paid_sum [triple 1 ''400.00'' ''0.00'', triple 2 ''0.00'' ''200.00''] = Some 40000
   \<and> owed_sum [triple 1 ''400.00'' ''0.00'', triple 2 ''0.00'' ''200.00''] = Some 20000"
  by (simp add: allocate_dinner_equal)
    (simp add: dinner_equal_def cents_examples paid_sum_def owed_sum_def triple_def
       cents_entry_def cents_of_string_examples cents_of_string_zero)

text \<open>
  C2, amended. For a positive total and non-empty distinct participants that contain the
  payer, with split type \<^verbatim>\<open>equal\<close>, or \<^verbatim>\<open>shares\<close> or \<^verbatim>\<open>unequal\<close> with a non-empty
  list of owed shares as long as the list of participants: the paid amounts of the
  allocation add up to the total, to currency precision. The owed amounts add up, under
  \<^verbatim>\<open>equal\<close>, to the rounded equal share times the number of participants other than the
  payer and, under \<^verbatim>\<open>shares\<close> or \<^verbatim>\<open>unequal\<close>, to the sum of the supplied owed shares,
  each to currency precision; neither is the total in general.
\<close>

theorem paid_sum_is_total:
  assumes "amount intent = Finite t" and "0 < t"
    and "split_type intent = ''equal''
         \<or> (split_type intent \<in> {''shares'', ''unequal''} \<and> owed_shares intent = Some shares
             \<and> shares \<noteq> [] \<and> length shares = length (participants intent))"
    and "participants intent \<noteq> []"
    and "distinct (participants intent)"
    and "user_id intent \<in> set (participants intent)"
  shows "\<exists>a. allocate intent = Inr a
           \<and> paid_sum a = Some (round_half_even (t * 100))
           \<and> (split_type intent = ''equal'' \<longrightarrow>
                 (\<exists>q. float_div (amount intent) (length (participants intent)) = Inr q
                    \<and> (\<forall>c. cents (py_round2 q) = Some c \<longrightarrow>
                          owed_sum a = Some (int (length (participants intent) - 1) * c))))
           \<and> (split_type intent \<noteq> ''equal'' \<longrightarrow> owed_sum a = sum_cents (map cents shares))"
proof -
  have tot: "cents (amount intent) = Some (round_half_even (t * 100))"
    using assms(1,2) by (simp add: cents_def)
  show ?thesis
  proof (cases "split_type intent = ''equal''")
    case True
    from assms(4) float_div_defined [of "length (participants intent)" "amount intent"]
    obtain q where q: "float_div (amount intent) (length (participants intent)) = Inr q"
      by auto
    let ?a = "map (\<lambda>uid. if uid = user_id intent
                          then triple uid (fmt2 (amount intent)) ''0.00''
                          else triple uid ''0.00'' (fmt2 (py_round2 q)))
                (participants intent)"
    have a: "allocate intent = Inr ?a"
      by (rule allocate_equal [OF True q])
    have "paid_sum ?a = cents (amount intent)"
      by (rule paid_sum_payer [OF paid_column_equal assms(5,6)])
    then have p: "paid_sum ?a = Some (round_half_even (t * 100))"
      by (simp only: tot)
    have w: "\<forall>c. cents (py_round2 q) = Some c \<longrightarrow>
               owed_sum ?a = Some (int (length (participants intent) - 1) * c)"
      using owed_sum_equal [OF assms(5,6)] by blast
    from a p q w True show ?thesis
      by (intro exI [of _ ?a] conjI impI exI [of _ q]) simp_all
  next
    case False
    with assms(3) have sh: "split_type intent \<in> {''shares'', ''unequal''}"
      "owed_shares intent = Some shares" "shares \<noteq> []"
      "length shares = length (participants intent)"
      by simp_all
    let ?a = "map (\<lambda>(uid, s). triple uid (if uid = user_id intent then fmt2 (amount intent)
                                         else ''0.00'') (fmt2 s))
                (zip (participants intent) shares)"
    have a: "allocate intent = Inr ?a"
      by (rule allocate_shares [OF sh])
    have "paid_sum ?a = cents (amount intent)"
      by (rule paid_sum_payer [OF paid_column_shares [OF sh(4)] assms(5,6)])
    then have p: "paid_sum ?a = Some (round_half_even (t * 100))"
      by (simp only: tot)
    have w: "owed_sum ?a = sum_cents (map cents shares)"
      by (rule owed_sum_shares [OF owed_column_shares [OF sh(4)]])
    from a p w False show ?thesis
      by (intro exI [of _ ?a] conjI impI) simp_all
  qed
qed

text \<open>The first and the second usage example.\<close>

theorem paid_sum_is_total_witness:
  "amount dinner_equal = Finite 400 \<and> (0::rat) < 400
   \<and> participants dinner_equal \<noteq> [] \<and> distinct (participants dinner_equal)
   \<and> user_id dinner_equal \<in> set (participants dinner_equal)
   \<and> (\<exists>a. allocate dinner_equal = Inr a \<and> paid_sum a = Some 40000 \<and> owed_sum a = Some 20000)
   \<and> (\<exists>a. allocate dinner_unequal = Inr a \<and> paid_sum a = Some 40000 \<and> owed_sum a = Some 40000)"
proof -
  have he: "amount dinner_equal = Finite 400" "(0::rat) < 400"
    "split_type dinner_equal = ''equal''
         \<or> (split_type dinner_equal \<in> {''shares'', ''unequal''} \<and> owed_shares dinner_equal = Some []
             \<and> [] \<noteq> [] \<and> length [] = length (participants dinner_equal))"
    "participants dinner_equal \<noteq> []" "distinct (participants dinner_equal)"
    "user_id dinner_equal \<in> set (participants dinner_equal)"
    by (simp_all add: dinner_equal_def)
  from paid_sum_is_total [OF he] obtain a
    where a: "allocate dinner_equal = Inr a"
      and p: "paid_sum a = Some (round_half_even (400 * 100))"
      and w: "split_type dinner_equal = ''equal'' \<longrightarrow>
                 (\<exists>q. float_div (amount dinner_equal) (length (participants dinner_equal)) = Inr q
                    \<and> (\<forall>c. cents (py_round2 q) = Some c \<longrightarrow>
                          owed_sum a = Some (int (length (participants dinner_equal) - 1) * c)))"
    by (elim exE conjE)
  from w he(3) obtain q
    where q: "float_div (amount dinner_equal) (length (participants dinner_equal)) = Inr q"
      and c: "\<forall>c. cents (py_round2 q) = Some c \<longrightarrow>
                 owed_sum a = Some (int (length (participants dinner_equal) - 1) * c)"
    by (auto simp: dinner_equal_def)
  from q have "q = Finite 200"
    by (simp add: dinner_equal_def half_of_400 flip: numeral_2_eq_2)
  with c have "owed_sum a = Some 20000"
    by (simp add: round_200 cents_examples dinner_equal_def)
  moreover from p have "paid_sum a = Some 40000"
    by (simp add: round_half_even_def)
  ultimately have e: "\<exists>a. allocate dinner_equal = Inr a \<and> paid_sum a = Some 40000
      \<and> owed_sum a = Some 20000"
    using a by (intro exI [of _ a] conjI)
  have hu: "amount dinner_unequal = Finite 400" "(0::rat) < 400"
    "split_type dinner_unequal = ''equal''
         \<or> (split_type dinner_unequal \<in> {''shares'', ''unequal''}
             \<and> owed_shares dinner_unequal = Some [Finite 135, Finite 265]
             \<and> [Finite 135, Finite 265] \<noteq> []
             \<and> length [Finite 135, Finite 265] = length (participants dinner_unequal))"
    "participants dinner_unequal \<noteq> []" "distinct (participants dinner_unequal)"
    "user_id dinner_unequal \<in> set (participants dinner_unequal)"
    by (simp_all add: dinner_unequal_def)
  from paid_sum_is_total [OF hu] obtain b
    where b: "allocate dinner_unequal = Inr b"
      and pb: "paid_sum b = Some (round_half_even (400 * 100))"
      and wb: "split_type dinner_unequal \<noteq> ''equal'' \<longrightarrow>
                 owed_sum b = sum_cents (map cents [Finite 135, Finite 265])"
    by (elim exE conjE)
  from wb have "owed_sum b = Some 40000"
    by (simp add: dinner_unequal_def cents_examples)
  moreover from pb have "paid_sum b = Some 40000"
    by (simp add: round_half_even_def)
  ultimately have u: "\<exists>a. allocate dinner_unequal = Inr a \<and> paid_sum a = Some 40000
      \<and> owed_sum a = Some 40000"
    using b by (intro exI [of _ b] conjI)
  from he(1,2,4,5,6) e u show ?thesis
    by (intro conjI)
qed

section \<open>The float model at some values\<close>

text \<open>
  The model agrees with CPython where binary and decimal arithmetic part: \<^verbatim>\<open>0.125 / 25\<close>
  is the float just above 0.005, so \<^verbatim>\<open>round(0.125 / 25, 2)\<close> is 0.01 although 0.005
  itself would go to the even neighbour 0.00; \<^verbatim>\<open>100 / 3\<close> rounds to the float nearest
  to 33.33; the float written 2.675 lies below 2.675 and rounds to the float nearest to
  2.67; \<^verbatim>\<open>f"{0.125:.2f}"\<close> is a tie and prints \<^verbatim>\<open>0.12\<close>; a negative float that
  rounds to zero keeps its sign.
\<close>

lemma eighth_by_25:
  "float_div (Finite (1 / 8)) 25 = Inr (Finite (5764607523034235 / 1152921504606846976))"
  by code_simp

lemma round_eighth_by_25:
  "py_round2 (Finite (5764607523034235 / 1152921504606846976)) =
     Finite (5764607523034235 / 576460752303423488)"
  by code_simp

lemma third_of_100:
  "float_div (Finite 100) 3 = Inr (Finite (4691249611844267 / 140737488355328))"
  by code_simp

lemma round_third_of_100:
  "py_round2 (Finite (4691249611844267 / 140737488355328)) =
     Finite (2345390243441541 / 70368744177664)"
  by code_simp

lemma round_2675:
  "py_round2 (Finite (3011782250804019 / 1125899906842624)) =
     Finite (1503076375634903 / 562949953421312)"
  by code_simp

lemma floor_numeral_div: "\<lfloor>(numeral a :: rat) / numeral b\<rfloor> = numeral a div numeral b"
  using floor_divide_of_int_eq [of "numeral a" "numeral b", where ?'a = rat] by simp

lemma fmt2_more_examples:
  "fmt2 (Finite (5764607523034235 / 576460752303423488)) = ''0.01''"
  "fmt2 (Finite (2345390243441541 / 70368744177664)) = ''33.33''"
  "fmt2 (Finite (1503076375634903 / 562949953421312)) = ''2.67''"
  "fmt2 (Finite (1 / 8)) = ''0.12''"
  "fmt2 (Finite (- 1 / 1000)) = ''-0.00''"
  "fmt2 (Finite 100) = ''100.00''" "fmt2 (Finite 50) = ''50.00''"
  "fmt2 (Finite 30) = ''30.00''" "fmt2 (Finite 20) = ''20.00''"
  by (simp_all add: fmt2_def round_half_even_def Let_def floor_numeral_div fixed2_def
        str_nat.simps digit_char_def)

text \<open>The third usage example.\<close>

lemma allocate_snacks_shares:
  "allocate snacks_shares =
     Inr [triple 1 ''100.00'' ''50.00'', triple 2 ''0.00'' ''30.00'', triple 3 ''0.00'' ''20.00'']"
proof -
  have "allocate snacks_shares =
      Inr (map (\<lambda>(uid, s). triple uid (if uid = user_id snacks_shares
                                         then fmt2 (amount snacks_shares) else ''0.00'') (fmt2 s))
             (zip (participants snacks_shares) [Finite 50, Finite 30, Finite 20]))"
    by (rule allocate_shares) (simp_all add: snacks_shares_def)
  then show ?thesis by (simp add: snacks_shares_def fmt2_more_examples)
qed

end
